theory Spec2Isabelle
  imports Complex_Main
begin

section \<open>JavaScript values used by App.jsx\<close>

text \<open>
  A JavaScript number is either \<open>NaN\<close> or a finite value. Integer-valued results
  (\<open>parseInt\<close>, \<open>Math.round\<close>) carry an \<open>int\<close>, measured quantities (luminance,
  contrast) a \<open>real\<close>. The two random draws of \<open>generatePalette\<close>, its random hues
  and its lightness ladder are computed as IEEE doubles, every operation rounded (section
  \<open>Rounding to doubles\<close>): the bounds of the ladder have no margin, so the rounding
  decides them. The color conversions and the luminance are computed exactly. Strings are
  lists of 8-bit characters.
\<close>

datatype 'a number = NaN | Num 'a

datatype error = TypeError

text \<open>
  An array slot holds a string or \<open>undefined\<close> (\<open>None\<close>). Reading an array outside
  its bounds gives \<open>undefined\<close> as well.
\<close>

type_synonym slot = "string option"

definition elem_at :: "'a list \<Rightarrow> int \<Rightarrow> 'a option" where
  "elem_at xs i = (if 0 \<le> i \<and> i < int (length xs) then Some (xs ! nat i) else None)"

definition slot_at :: "slot list \<Rightarrow> int \<Rightarrow> slot" where
  "slot_at xs i = (case elem_at xs i of None \<Rightarrow> None | Some v \<Rightarrow> v)"

text \<open>\<open>locks[i]\<close> in a condition: \<open>undefined\<close> is falsy.\<close>

definition truthy_at :: "bool list \<Rightarrow> int \<Rightarrow> bool" where
  "truthy_at bs i = (case elem_at bs i of None \<Rightarrow> False | Some b \<Rightarrow> b)"

text \<open>\<open>a ?? b\<close>\<close>

definition nullish :: "slot \<Rightarrow> slot \<Rightarrow> slot" where
  "nullish a b = (case a of None \<Rightarrow> b | Some v \<Rightarrow> Some v)"

text \<open>\<open>xs.map((c, i) => f(c, i))\<close>\<close>

definition map_index :: "('a \<Rightarrow> int \<Rightarrow> 'b) \<Rightarrow> 'a list \<Rightarrow> 'b list" where
  "map_index f xs = map (\<lambda>(c, i). f c (int i)) (zip xs [0..<length xs])"

section \<open>Utility helpers\<close>

text \<open>\<open>const clamp = (v, min=0, max=1) => Math.min(max, Math.max(min, v))\<close>\<close>

definition clamp :: "real \<Rightarrow> real \<Rightarrow> real \<Rightarrow> real" where
  "clamp v lo hi = min hi (max lo v)"

text \<open>\<open>Number.prototype.toString(16)\<close> on an integer, and on \<open>NaN\<close>.\<close>

definition hex_char :: "nat \<Rightarrow> char" where
  "hex_char d = ''0123456789abcdef'' ! d"

fun hex_digits :: "nat \<Rightarrow> string" where
  "hex_digits n = (if n < 16 then [hex_char n] else hex_digits (n div 16) @ [hex_char (n mod 16)])"

declare hex_digits.simps [simp del]

definition toString16 :: "int number \<Rightarrow> string" where
  "toString16 v = (case v of
       NaN \<Rightarrow> ''NaN''
     | Num n \<Rightarrow> (if n < 0 then CHR ''-'' # hex_digits (nat (- n)) else hex_digits (nat n)))"

text \<open>\<open>s.padStart(2, "0")\<close>\<close>

definition padStart2 :: "string \<Rightarrow> string" where
  "padStart2 s = replicate (2 - length s) CHR ''0'' @ s"

text \<open>\<open>const pad = (n) => n.toString(16).padStart(2, "0")\<close>\<close>

definition pad :: "int number \<Rightarrow> string" where
  "pad n = padStart2 (toString16 n)"

section \<open>Hex strings and RGB triples\<close>

text \<open>
  \<open>function rgbToHex([r,g,b])\<close>: the parameter destructures the first three elements
  of the array. A missing element is \<open>undefined\<close>, and \<open>pad(undefined)\<close> throws a
  \<open>TypeError\<close>.
\<close>

definition rgbToHex :: "int number list \<Rightarrow> error + string" where
  "rgbToHex arr = (case arr of
       r # g # b # _ \<Rightarrow> Inr (CHR ''#'' # pad r @ pad g @ pad b)
     | _ \<Rightarrow> Inl TypeError)"

text \<open>
  The regular expression \<open>/.{1,2}/g\<close>: greedy groups of one or two characters, where
  \<open>.\<close> matches everything but a line terminator. Of the four line terminators of the
  language, line feed and carriage return are 8-bit characters; U+2028 and U+2029 are
  outside the strings of this model.
\<close>

definition line_terminator :: "char \<Rightarrow> bool" where
  "line_terminator c \<longleftrightarrow> c = CHR 0x0A \<or> c = CHR 0x0D"

fun match_groups :: "string \<Rightarrow> string list" where
  "match_groups [] = []"
| "match_groups [a] = (if line_terminator a then [] else [[a]])"
| "match_groups (a # b # cs) =
     (if line_terminator a then match_groups (b # cs)
      else if line_terminator b then [a] # match_groups (b # cs)
      else [a, b] # match_groups cs)"

text \<open>
  \<open>parseInt(x, 16)\<close>: leading white space is skipped, then a sign, then a prefix
  \<open>0x\<close> or \<open>0X\<close>; the value is that of the longest run of hexadecimal digits that
  follows, and \<open>NaN\<close> when there is none. The white space of the 8-bit range is tab, line
  feed, vertical tab, form feed, carriage return, space and no-break space. The result is
  exact below \<open>2^53\<close>; \<open>hexToRgb\<close> applies it to groups of at most two characters.
\<close>

definition hex_value :: "char \<Rightarrow> nat option" where
  "hex_value c =
     (let n = (of_char c :: nat) in
      if 48 \<le> n \<and> n \<le> 57 then Some (n - 48)
      else if 97 \<le> n \<and> n \<le> 102 then Some (n - 87)
      else if 65 \<le> n \<and> n \<le> 70 then Some (n - 55)
      else None)"

definition is_hex :: "char \<Rightarrow> bool" where
  "is_hex c \<longleftrightarrow> hex_value c \<noteq> None"

definition white_space :: "char \<Rightarrow> bool" where
  "white_space c \<longleftrightarrow> (of_char c :: nat) \<in> {9, 10, 11, 12, 13, 32, 160}"

definition hex_number :: "string \<Rightarrow> nat" where
  "hex_number z = foldl (\<lambda>acc c. 16 * acc + (case hex_value c of Some d \<Rightarrow> d | None \<Rightarrow> 0)) 0 z"

definition parseInt16 :: "string \<Rightarrow> int number" where
  "parseInt16 str =
     (let s1 = dropWhile white_space str;
          sign = (if take 1 s1 = ''-'' then - 1 else 1);
          s2 = (if take 1 s1 = ''+'' \<or> take 1 s1 = ''-'' then drop 1 s1 else s1);
          s3 = (if take 2 s2 = ''0x'' \<or> take 2 s2 = ''0X'' then drop 2 s2 else s2);
          z = takeWhile is_hex s3
      in if z = [] then NaN else Num (sign * int (hex_number z)))"

text \<open>
  \<open>hex.replace('#','')\<close> removes the first \<open>#\<close> of the string, wherever it stands;
  \<open>match\<close> gives \<open>null\<close> when there is no group at all.
\<close>

definition hexToRgb :: "string \<Rightarrow> int number list" where
  "hexToRgb hex =
     (let m = match_groups (remove1 CHR ''#'' hex) in
      if m = [] then [Num 0, Num 0, Num 0] else map parseInt16 m)"

section \<open>HSL to RGB\<close>

text \<open>
  The remainder \<open>a % b\<close> takes the sign of the dividend: the quotient is truncated
  towards zero. \<open>Math.round\<close> rounds to the nearest integer, a tie towards
  \<open>+\<infinity>\<close>.
\<close>

definition trunc :: "real \<Rightarrow> int" where
  "trunc x = (if 0 \<le> x then \<lfloor>x\<rfloor> else \<lceil>x\<rceil>)"

definition fmod :: "real \<Rightarrow> real \<Rightarrow> real" where
  "fmod a b = a - b * of_int (trunc (a / b))"

definition rem :: "int \<Rightarrow> int \<Rightarrow> int" where
  "rem a b = a - b * (sgn a * sgn b * (\<bar>a\<bar> div \<bar>b\<bar>))"

definition js_round :: "real \<Rightarrow> int" where
  "js_round x = \<lfloor>x + 1 / 2\<rfloor>"

text \<open>The first statement of \<open>hslToRgb\<close>: \<open>h = (h % 360 + 360) % 360\<close>.\<close>

definition wrap_hue :: "real \<Rightarrow> real" where
  "wrap_hue h = fmod (fmod h 360 + 360) 360"

definition hslToRgb :: "real \<Rightarrow> real \<Rightarrow> real \<Rightarrow> int number list" where
  "hslToRgb h0 s l =
     (let h = wrap_hue h0;
          c = (1 - \<bar>2 * l - 1\<bar>) * s;
          x = c * (1 - \<bar>fmod (h / 60) 2 - 1\<bar>);
          m = l - c / 2;
          (r, g, b) =
            (if h < 60 then (c, x, 0)
             else if h < 120 then (x, c, 0)
             else if h < 180 then (0, c, x)
             else if h < 240 then (0, x, c)
             else if h < 300 then (x, 0, c)
             else (c, 0, x))
      in [Num (js_round ((r + m) * 255)),
          Num (js_round ((g + m) * 255)),
          Num (js_round ((b + m) * 255))])"

section \<open>Luminance and contrast\<close>

text \<open>Arithmetic in which \<open>NaN\<close> propagates; a comparison with \<open>NaN\<close> is false.\<close>

definition lift2 :: "('a \<Rightarrow> 'b \<Rightarrow> 'c) \<Rightarrow> 'a number \<Rightarrow> 'b number \<Rightarrow> 'c number" where
  "lift2 f a b = (case a of NaN \<Rightarrow> NaN | Num x \<Rightarrow> (case b of NaN \<Rightarrow> NaN | Num y \<Rightarrow> Num (f x y)))"

definition num_ge :: "real number \<Rightarrow> real \<Rightarrow> bool" where
  "num_ge v t = (case v of NaN \<Rightarrow> False | Num x \<Rightarrow> t \<le> x)"

text \<open>\<open>v/255\<close> for the \<open>k\<close>-th destructured element; \<open>undefined/255\<close> is \<open>NaN\<close>.\<close>

definition channel :: "int number list \<Rightarrow> int \<Rightarrow> real number" where
  "channel arr k = (case elem_at arr k of Some (Num n) \<Rightarrow> Num (real_of_int n / 255) | _ \<Rightarrow> NaN)"

definition linearize :: "real number \<Rightarrow> real number" where
  "linearize v = (case v of
       NaN \<Rightarrow> NaN
     | Num x \<Rightarrow> Num (if x \<le> 0.03928 then x / 12.92 else ((x + 0.055) / 1.055) powr 2.4))"

definition relativeLuminance :: "int number list \<Rightarrow> real number" where
  "relativeLuminance arr =
     (let srgb = map (\<lambda>k. linearize (channel arr k)) [0, 1, 2] in
      lift2 (+) (lift2 (+) (lift2 (*) (Num 0.2126) (srgb ! 0)) (lift2 (*) (Num 0.7152) (srgb ! 1)))
                (lift2 (*) (Num 0.0722) (srgb ! 2)))"

text \<open>
  \<open>contrastRatio(hex1, hex2)\<close> calls \<open>hex.replace\<close> on both arguments: an
  \<open>undefined\<close> argument throws a \<open>TypeError\<close>. The divisor \<open>darker + 0.05\<close> is
  never zero: a group of two characters parses to \<open>-15\<close> at least, which keeps the
  luminance above \<open>-0.05\<close>.
\<close>

definition contrastRatio :: "slot \<Rightarrow> slot \<Rightarrow> error + real number" where
  "contrastRatio hex1 hex2 =
     (case hex1 of None \<Rightarrow> Inl TypeError | Some h1 \<Rightarrow>
      (case hex2 of None \<Rightarrow> Inl TypeError | Some h2 \<Rightarrow>
        (let L1 = relativeLuminance (hexToRgb h1);
             L2 = relativeLuminance (hexToRgb h2);
             lighter = lift2 max L1 L2;
             darker = lift2 min L1 L2
         in Inr (lift2 (/) (lift2 (+) lighter (Num 0.05)) (lift2 (+) darker (Num 0.05))))))"

text \<open>
  \<open>contrast >= 7 ? 'AAA' : contrast >= 4.5 ? 'AA' : contrast >= 3 ? 'AA Large' : 'Fail'\<close>
\<close>

definition wcag :: "real number \<Rightarrow> string" where
  "wcag contrast =
     (if num_ge contrast 7 then ''AAA''
      else if num_ge contrast 4.5 then ''AA''
      else if num_ge contrast 3 then ''AA Large''
      else ''Fail'')"

section \<open>Rounding to doubles\<close>

text \<open>
  A finite double is an integer of at most 53 bits times a power of two. \<open>fl x\<close> is the
  double nearest to the real \<open>x\<close>, a tie going to the even significand, as every
  arithmetic operation and every decimal literal of the language rounds. The exponent of
  the last place is \<open>expo x\<close>; below \<open>2^-1022\<close> it stays at \<open>-1074\<close> (subnormal
  numbers). Overflow to \<open>Infinity\<close> is not modelled: the values rounded here lie below
  360.
\<close>

definition round_even :: "real \<Rightarrow> int" where
  "round_even r =
     (let f = \<lfloor>r\<rfloor>; d = r - of_int f in
      if d < 1 / 2 then f else if 1 / 2 < d then f + 1 else if even f then f else f + 1)"

definition expo :: "real \<Rightarrow> int" where
  "expo x = max \<lfloor>log 2 \<bar>x\<bar>\<rfloor> (- 1022) - 52"

definition fl :: "real \<Rightarrow> real" where
  "fl x =
     (if x = 0 then 0
      else of_int (round_even (x / 2 powr of_int (expo x))) * 2 powr of_int (expo x))"

section \<open>Palette generation\<close>

text \<open>
  \<open>Math.random\<close> is an oracle \<open>rnd\<close>: its \<open>k\<close>-th call returns \<open>rnd k\<close>, a value in
  \<open>[0, 1)\<close>. \<open>generatePalette\<close> draws the saturation first (call 0), the lightness
  second (call 1), and the five hues of the random scheme after them (calls 2 to 6).
  Every caller passes \<open>baseHue\<close>, so the draw of its default value is not modelled.
\<close>

text \<open>\<open>const s = 0.5 + Math.random()*0.4\<close> and \<open>const l = 0.45 + Math.random()*0.2\<close>\<close>

definition saturation :: "real \<Rightarrow> real" where
  "saturation u = fl (fl 0.5 + fl (u * fl 0.4))"

definition lightness :: "real \<Rightarrow> real" where
  "lightness u = fl (fl 0.45 + fl (u * fl 0.2))"

definition hues :: "string \<Rightarrow> int \<Rightarrow> (nat \<Rightarrow> real) \<Rightarrow> int list" where
  "hues sch h rnd =
     (if sch = ''complementary'' then
        [h, rem (h + 180) 360, rem (h + 30) 360, rem (h + 210) 360, rem (h + 350) 360]
      else if sch = ''triadic'' then
        [h, rem (h + 120) 360, rem (h + 240) 360, rem (h + 60) 360, rem (h + 300) 360]
      else if sch = ''analogous'' then
        map (\<lambda>k. rem (rem k 360 + 360) 360) [h - 30, h - 10, h, h + 10, h + 30]
      else if sch = ''monochrome'' then
        [h, h, h, h, h]
      else
        map (\<lambda>k. \<lfloor>fl (rnd k * 360)\<rfloor>) [2, 3, 4, 5, 6])"

text \<open>
  The constants of the two monochrome ladders enter no arithmetic here: they stand as
  written.
\<close>

definition ls :: "string \<Rightarrow> real \<Rightarrow> real list" where
  "ls sch l =
     (if sch = ''monochrome'' then [0.25, 0.4, 0.55, 0.7, 0.85]
      else map (\<lambda>x. clamp x (fl 0.15) (fl 0.9))
             [fl (l - fl 0.15), fl (l - fl 0.05), l, fl (l + fl 0.08), fl (l + fl 0.16)])"

definition ss :: "string \<Rightarrow> real \<Rightarrow> real list" where
  "ss sch s =
     (if sch = ''monochrome'' then [0.15, 0.3, 0.45, 0.6, 0.75]
      else replicate 5 s)"

text \<open>An exception thrown inside \<open>map\<close> ends the whole call.\<close>

fun collect :: "('e + 'a) list \<Rightarrow> 'e + 'a list" where
  "collect [] = Inr []"
| "collect (x # xs) =
     (case x of Inl e \<Rightarrow> Inl e
      | Inr v \<Rightarrow> (case collect xs of Inl e \<Rightarrow> Inl e | Inr vs \<Rightarrow> Inr (v # vs)))"

text \<open>The color of one slot: the body of the final \<open>hues.map((h, i) => ...)\<close>.\<close>

definition slot_color :: "real list \<Rightarrow> real list \<Rightarrow> int \<Rightarrow> int \<Rightarrow> error + string" where
  "slot_color sv lv h i =
     rgbToHex (hslToRgb (real_of_int h) (clamp (sv ! nat i) 0 1) (clamp (lv ! nat i) 0 1))"

definition generatePalette :: "int \<Rightarrow> string \<Rightarrow> (nat \<Rightarrow> real) \<Rightarrow> error + string list" where
  "generatePalette h sch rnd =
     (let s = saturation (rnd 0);
          l = lightness (rnd 1)
      in collect (map_index (slot_color (ss sch s) (ls sch l)) (hues sch h rnd)))"

section \<open>The component state and its operations\<close>

record state =
  scheme :: string
  baseHue :: real
  palette :: "slot list"
  locks :: "bool list"
  fgIndex :: int
  bgIndex :: int

text \<open>
  \<open>regenerate\<close>: \<open>setPalette(p => p.map((c,i)=> locks[i] ? c : fresh[i]))\<close> with
  \<open>fresh = generatePalette({ baseHue: Math.floor(baseHue), scheme })\<close>.
\<close>

definition regenerate :: "state \<Rightarrow> (nat \<Rightarrow> real) \<Rightarrow> error + state" where
  "regenerate st rnd =
     (let base = \<lfloor>baseHue st\<rfloor> in
      case generatePalette base (scheme st) rnd of
        Inl e \<Rightarrow> Inl e
      | Inr fresh \<Rightarrow>
          Inr (st\<lparr>palette :=
                 map_index (\<lambda>c i. if truthy_at (locks st) i then c else elem_at fresh i)
                   (palette st)\<rparr>))"

text \<open>\<open>updateColor\<close>: \<open>setPalette(p => p.map((c,idx)=> idx===i ? hex : c))\<close>\<close>

definition updateColor :: "state \<Rightarrow> int \<Rightarrow> string \<Rightarrow> state" where
  "updateColor st i hex =
     st\<lparr>palette := map_index (\<lambda>c idx. if idx = i then Some hex else c) (palette st)\<rparr>"

text \<open>
  The contrast selection:
  \<open>fg = palette[fgIndex-1] ?? palette[0]\<close>,
  \<open>bg = palette[bgIndex-1] ?? palette[palette.length-1]\<close>,
  \<open>contrast = contrastRatio(fg, bg)\<close>.
\<close>

definition fg :: "state \<Rightarrow> slot" where
  "fg st = nullish (slot_at (palette st) (fgIndex st - 1)) (slot_at (palette st) 0)"

definition bg :: "state \<Rightarrow> slot" where
  "bg st = nullish (slot_at (palette st) (bgIndex st - 1))
                   (slot_at (palette st) (int (length (palette st)) - 1))"

definition contrast :: "state \<Rightarrow> error + real number" where
  "contrast st = contrastRatio (fg st) (bg st)"

section \<open>Reference definitions in the words of the specification\<close>

text \<open>
  The specification speaks of indices clamped to \<open>[1, palette length]\<close>. This is that
  reading, to be compared with \<open>fg\<close> and \<open>bg\<close> above.
\<close>

definition clamped_index :: "int \<Rightarrow> nat \<Rightarrow> int" where
  "clamped_index i n = min (int n) (max 1 i)"

definition clamped_select :: "slot list \<Rightarrow> int \<Rightarrow> slot" where
  "clamped_select p i = slot_at p (clamped_index i (length p) - 1)"

text \<open>A valid hex string: \<open>#\<close> followed by six hexadecimal digits.\<close>

definition valid_hex :: "string \<Rightarrow> bool" where
  "valid_hex x \<longleftrightarrow> (case x of [] \<Rightarrow> False | c # ds \<Rightarrow> c = CHR ''#'' \<and> length ds = 6 \<and> list_all is_hex ds)"

text \<open>Case normalisation: \<open>A\<close> to \<open>F\<close> become \<open>a\<close> to \<open>f\<close>, as \<open>toLowerCase\<close> does on a hex string.\<close>

definition lower_char :: "char \<Rightarrow> char" where
  "lower_char c =
     (let n = (of_char c :: nat) in if 65 \<le> n \<and> n \<le> 90 then char_of (n + 32) else c)"

definition lower :: "string \<Rightarrow> string" where
  "lower x = map lower_char x"

text \<open>
  The hue sequence of the complementary scheme as the specification writes it:
  every offset added to the base hue and reduced modulo 360.
\<close>

definition complementary_spec :: "int \<Rightarrow> int list" where
  "complementary_spec h = map (\<lambda>d. (h + d) mod 360) [0, 180, 30, 210, 350]"

text \<open>A concrete state on which the theorems below are exercised.\<close>

definition sample_state :: state where
  "sample_state =
     \<lparr>scheme = ''monochrome'', baseHue = 120,
      palette = [Some ''#000000'', Some ''#111111'', Some ''#222222'', Some ''#333333'', Some ''#444444''],
      locks = [True, False, False, True, False], fgIndex = 1, bgIndex = 5\<rparr>"

text \<open>A sequence of draws for the oracle: every call returns 0.\<close>

definition fixed_draws :: "nat \<Rightarrow> real" where
  "fixed_draws k = 0"

section \<open>Arrays\<close>

lemma length_map_index: "length (map_index f xs) = length xs"
  by (simp add: map_index_def)

lemma nth_map_index: "i < length xs \<Longrightarrow> map_index f xs ! i = f (xs ! i) (int i)"
  by (simp add: map_index_def)

lemma elem_at_nat: "i < length xs \<Longrightarrow> elem_at xs (int i) = Some (xs ! i)"
  by (simp add: elem_at_def)

lemma truthy_at_nat: "i < length bs \<Longrightarrow> truthy_at bs (int i) = bs ! i"
  by (simp add: truthy_at_def elem_at_def)

lemma collect_Inr:
  "(\<And>x. x \<in> set xs \<Longrightarrow> \<exists>v. x = Inr v) \<Longrightarrow> \<exists>vs. collect xs = Inr vs \<and> length vs = length xs"
proof (induction xs)
  case Nil
  then show ?case by simp
next
  case (Cons a xs)
  from Cons.prems obtain v where a: "a = Inr v" by auto
  from Cons.IH Cons.prems obtain vs where vs: "collect xs = Inr vs" "length vs = length xs"
    by auto
  show ?case using a vs by simp
qed

section \<open>The generator never throws\<close>

lemma rgbToHex_hslToRgb: "\<exists>c. rgbToHex (hslToRgb h s l) = Inr c"
  by (simp add: hslToRgb_def rgbToHex_def Let_def split: prod.splits)

lemma length_hues: "length (hues sch h rnd) = 5"
  by (simp add: hues_def)

lemma generatePalette_total:
  "\<exists>F. generatePalette h sch rnd = Inr F \<and> length F = 5"
proof -
  let ?xs = "map_index (slot_color (ss sch (saturation (rnd 0))) (ls sch (lightness (rnd 1))))
               (hues sch h rnd)"
  have "\<And>x. x \<in> set ?xs \<Longrightarrow> \<exists>v. x = Inr v"
    using rgbToHex_hslToRgb by (auto simp: map_index_def slot_color_def)
  from collect_Inr [OF this] obtain vs where "collect ?xs = Inr vs" "length vs = length ?xs"
    by blast
  then show ?thesis
    by (simp add: generatePalette_def Let_def length_map_index length_hues)
qed

section \<open>Regeneration with locks\<close>

text \<open>
  Claim C1. For a palette of five slots and a lock mask of five booleans, \<open>regenerate\<close>
  returns (it does not throw), the fresh palette \<open>F\<close> it generates has five colors, and
  slot \<open>i\<close> of the new palette is the old slot \<open>i\<close> where \<open>locks[i]\<close> is true and
  \<open>F[i]\<close> where it is false.
\<close>

theorem regenerate_keeps_locked:
  assumes "length (palette st) = 5" and "length (locks st) = 5"
  shows "\<exists>F st'. generatePalette \<lfloor>baseHue st\<rfloor> (scheme st) rnd = Inr F \<and> length F = 5
           \<and> regenerate st rnd = Inr st' \<and> length (palette st') = 5
           \<and> (\<forall>i<5. palette st' ! i = (if locks st ! i then palette st ! i else Some (F ! i)))"
proof -
  obtain F where F: "generatePalette \<lfloor>baseHue st\<rfloor> (scheme st) rnd = Inr F" "length F = 5"
    using generatePalette_total by blast
  let ?p = "map_index (\<lambda>c i. if truthy_at (locks st) i then c else elem_at F i) (palette st)"
  have r: "regenerate st rnd = Inr (st\<lparr>palette := ?p\<rparr>)"
    using F by (simp add: regenerate_def)
  have "\<forall>i<5. ?p ! i = (if locks st ! i then palette st ! i else Some (F ! i))"
    using assms F by (simp add: nth_map_index truthy_at_nat elem_at_nat)
  with F r assms show ?thesis
    by (simp add: length_map_index)
qed

theorem regenerate_keeps_locked_witness:
  "length (palette sample_state) = 5 \<and> length (locks sample_state) = 5
   \<and> (\<exists>F st'. generatePalette \<lfloor>baseHue sample_state\<rfloor> (scheme sample_state) fixed_draws = Inr F
         \<and> length F = 5 \<and> regenerate sample_state fixed_draws = Inr st' \<and> length (palette st') = 5
         \<and> (\<forall>i<5. palette st' ! i =
               (if locks sample_state ! i then palette sample_state ! i else Some (F ! i))))"
proof -
  have p: "length (palette sample_state) = 5" by (simp add: sample_state_def)
  have l: "length (locks sample_state) = 5" by (simp add: sample_state_def)
  from regenerate_keeps_locked [OF p l, of fixed_draws] p l show ?thesis by blast
qed

section \<open>Editing one color\<close>

text \<open>
  Claim C9. \<open>updateColor\<close> keeps the length of the palette; slot \<open>i\<close> becomes the new
  string and every other slot keeps its value.
\<close>

theorem updateColor_frame:
  "length (palette (updateColor st i x)) = length (palette st)
   \<and> (\<forall>j<length (palette st).
         palette (updateColor st i x) ! j = (if int j = i then Some x else palette st ! j))"
  by (simp add: updateColor_def length_map_index nth_map_index)

theorem updateColor_frame_witness:
  "(2::nat) < length (palette sample_state)
   \<and> palette (updateColor sample_state 2 ''#ffffff'')
       = [Some ''#000000'', Some ''#111111'', Some ''#ffffff'', Some ''#333333'', Some ''#444444'']"
proof -
  have len: "length (palette sample_state) = 5" by (simp add: sample_state_def)
  have p: "palette sample_state
             = [Some ''#000000'', Some ''#111111'', Some ''#222222'', Some ''#333333'', Some ''#444444'']"
    by (simp add: sample_state_def)
  from updateColor_frame [of sample_state 2 "''#ffffff''"]
  have a: "length (palette (updateColor sample_state 2 ''#ffffff'')) = 5"
    and b: "\<forall>j<5. palette (updateColor sample_state 2 ''#ffffff'') ! j
              = (if int j = 2 then Some ''#ffffff'' else palette sample_state ! j)"
    using len by simp_all
  have "palette (updateColor sample_state 2 ''#ffffff'') ! j
          = [Some ''#000000'', Some ''#111111'', Some ''#ffffff'', Some ''#333333'', Some ''#444444''] ! j"
    if "j < 5" for j
  proof -
    from that have "j = 0 \<or> j = 1 \<or> j = 2 \<or> j = 3 \<or> j = 4" by arith
    then show ?thesis using b p that by auto
  qed
  with a len show ?thesis by (simp add: list_eq_iff_nth_eq)
qed

section \<open>WCAG classification\<close>

text \<open>
  Claim C4. The classification of a contrast ratio \<open>r\<close> falls into four disjoint
  ranges, tested from the highest threshold down: \<open>AAA\<close> from 7, \<open>AA\<close> from 4.5,
  \<open>AA Large\<close> from 3, \<open>Fail\<close> below; the boundary values 7, 4.5 and 3 belong to the
  upper class and 2.9 fails.
\<close>

theorem wcag_thresholds:
  "(wcag (Num r) = ''AAA'' \<longleftrightarrow> 7 \<le> r)
   \<and> (wcag (Num r) = ''AA'' \<longleftrightarrow> 4.5 \<le> r \<and> r < 7)
   \<and> (wcag (Num r) = ''AA Large'' \<longleftrightarrow> 3 \<le> r \<and> r < 4.5)
   \<and> (wcag (Num r) = ''Fail'' \<longleftrightarrow> r < 3)
   \<and> wcag (Num 7) = ''AAA'' \<and> wcag (Num 4.5) = ''AA''
   \<and> wcag (Num 3) = ''AA Large'' \<and> wcag (Num 2.9) = ''Fail''"
  by (auto simp: wcag_def num_ge_def)

section \<open>The monochrome ladders\<close>

lemma generatePalette_monochrome_eq:
  "generatePalette h ''monochrome'' rnd
     = collect (map (\<lambda>(s, l). rgbToHex (hslToRgb (real_of_int h) s l))
         [(0.15, 0.25), (0.3, 0.4), (0.45, 0.55), (0.6, 0.7), (0.75, 0.85)])"
  by (simp add: generatePalette_def map_index_def hues_def ss_def ls_def slot_color_def clamp_def
      upt_conv_Cons del: collect.simps)

text \<open>
  Claim C7. With the scheme \<open>monochrome\<close> all five hues are the base hue, the
  lightness ladder is 0.25, 0.40, 0.55, 0.70, 0.85 and the saturation ladder is 0.15, 0.30,
  0.45, 0.60, 0.75; the palette is the conversion of these five triples, and it is the same
  for every sequence of random draws.
\<close>

theorem monochrome_ladders:
  "hues ''monochrome'' h rnd = [h, h, h, h, h]
   \<and> ls ''monochrome'' l = [0.25, 0.40, 0.55, 0.70, 0.85]
   \<and> ss ''monochrome'' s = [0.15, 0.30, 0.45, 0.60, 0.75]
   \<and> generatePalette h ''monochrome'' rnd
       = collect (map (\<lambda>(s, l). rgbToHex (hslToRgb (real_of_int h) s l))
           [(0.15, 0.25), (0.30, 0.40), (0.45, 0.55), (0.60, 0.70), (0.75, 0.85)])
   \<and> generatePalette h ''monochrome'' rnd = generatePalette h ''monochrome'' rnd'"
  by (simp add: generatePalette_monochrome_eq hues_def ls_def ss_def del: collect.simps)

text \<open>The monochrome palette of base hue 120.\<close>

lemma generatePalette_monochrome_120:
  "generatePalette 120 ''monochrome'' fixed_draws
     = Inr [''#364936'', ''#478547'', ''#59c059'', ''#85e085'', ''#bcf5bc'']"
proof -
  have "collect (map (\<lambda>(s, l). rgbToHex (hslToRgb (real_of_int 120) s l))
           [(0.15, 0.25), (0.3, 0.4), (0.45, 0.55), (0.6, 0.7), (0.75, 0.85)])
        = Inr [''#364936'', ''#478547'', ''#59c059'', ''#85e085'', ''#bcf5bc'']"
    by code_simp
  then show ?thesis by (simp only: generatePalette_monochrome_eq)
qed

text \<open>Regeneration on the sample state keeps the locked slots 1 and 4.\<close>

lemma regenerate_sample:
  "regenerate sample_state fixed_draws
     = Inr (sample_state\<lparr>palette :=
         [Some ''#000000'', Some ''#478547'', Some ''#59c059'', Some ''#333333'', Some ''#bcf5bc'']\<rparr>)"
  by (simp add: regenerate_def sample_state_def generatePalette_monochrome_120 map_index_def
      truthy_at_def elem_at_def upt_conv_Cons)

section \<open>Hues of the complementary scheme\<close>



lemma rem_360_eq:
  "rem a 360 = (if 0 \<le> a then a mod 360 else - ((- a) mod 360))"
proof -
  have p: "a - 360 * (a div 360) = a mod 360" for a :: int
    by (rule minus_mult_div_eq_mod)
  consider "a = 0" | "0 < a" | "a < 0" by linarith
  then show ?thesis
  proof cases
    case 1
    then show ?thesis by (simp add: rem_def)
  next
    case 2
    then show ?thesis using p [of a] by (simp add: rem_def)
  next
    case 3
    then show ?thesis using p [of "- a"] by (simp add: rem_def)
  qed
qed





lemma rem_360_nonneg: "0 \<le> a \<Longrightarrow> rem a 360 = a mod 360"
  by (simp add: rem_360_eq)







text \<open>
  The array holds representatives of these hues: the base hue as it was given, and
  the remainders of \<open>%\<close>, which keep the sign of a negative sum. The wrap-around of
  \<open>hslToRgb\<close> removes the difference.
\<close>

lemma hues_at_360:
  "hues ''complementary'' 360 fixed_draws = [360, 180, 30, 210, 350]
   \<and> complementary_spec 360 = [0, 180, 30, 210, 350]"
  by (simp add: hues_def complementary_spec_def rem_360_nonneg)

lemma hues_at_minus_200:
  "hues ''complementary'' (- 200) fixed_draws = [- 200, - 20, - 170, 10, 150]
   \<and> complementary_spec (- 200) = [160, 340, 190, 10, 150]"
  by (simp add: hues_def complementary_spec_def rem_360_eq)

section \<open>Contrast selection\<close>

lemma slot_at_inside: "0 \<le> i \<Longrightarrow> i < int (length p) \<Longrightarrow> slot_at p i = p ! nat i"
  by (simp add: slot_at_def elem_at_def)

lemma slot_at_outside: "i < 0 \<or> int (length p) \<le> i \<Longrightarrow> slot_at p i = None"
  by (auto simp: slot_at_def elem_at_def)

lemma fg_select:
  "fg st = (if 1 \<le> fgIndex st \<and> fgIndex st \<le> int (length (palette st))
              \<and> palette st ! nat (fgIndex st - 1) \<noteq> None
            then palette st ! nat (fgIndex st - 1) else slot_at (palette st) 0)"
proof (cases "1 \<le> fgIndex st \<and> fgIndex st \<le> int (length (palette st))")
  case True
  then have "slot_at (palette st) (fgIndex st - 1) = palette st ! nat (fgIndex st - 1)"
    by (simp add: slot_at_inside)
  with True show ?thesis by (auto simp: fg_def nullish_def split: option.splits)
next
  case False
  then have "fgIndex st - 1 < 0 \<or> int (length (palette st)) \<le> fgIndex st - 1"
    by linarith
  then have "slot_at (palette st) (fgIndex st - 1) = None"
    by (rule slot_at_outside)
  with False show ?thesis by (auto simp: fg_def nullish_def)
qed

lemma bg_select:
  "bg st = (if 1 \<le> bgIndex st \<and> bgIndex st \<le> int (length (palette st))
              \<and> palette st ! nat (bgIndex st - 1) \<noteq> None
            then palette st ! nat (bgIndex st - 1)
            else slot_at (palette st) (int (length (palette st)) - 1))"
proof (cases "1 \<le> bgIndex st \<and> bgIndex st \<le> int (length (palette st))")
  case True
  then have "slot_at (palette st) (bgIndex st - 1) = palette st ! nat (bgIndex st - 1)"
    by (simp add: slot_at_inside)
  with True show ?thesis by (auto simp: bg_def nullish_def split: option.splits)
next
  case False
  then have "bgIndex st - 1 < 0 \<or> int (length (palette st)) \<le> bgIndex st - 1"
    by linarith
  then have "slot_at (palette st) (bgIndex st - 1) = None"
    by (rule slot_at_outside)
  with False show ?thesis by (auto simp: bg_def nullish_def)
qed

lemma contrastRatio_strings: "\<exists>r. contrastRatio (Some a) (Some b) = Inr r"
  by (simp add: contrastRatio_def Let_def)

text \<open>
  Claim C5, amended. On a palette that is not empty and holds a string in every slot, the
  contrast computation returns for every pair of integer indices: it does not throw. A
  foreground or background index between 1 and the length of the palette selects its own
  slot. Every other foreground index selects the first color, and every other background
  index selects the last color.
\<close>

theorem contrast_selection_soft:
  assumes "palette st \<noteq> []" and "None \<notin> set (palette st)"
  shows "(\<exists>r. contrast st = Inr r)
         \<and> fg st = (if 1 \<le> fgIndex st \<and> fgIndex st \<le> int (length (palette st))
                    then palette st ! nat (fgIndex st - 1) else hd (palette st))
         \<and> bg st = (if 1 \<le> bgIndex st \<and> bgIndex st \<le> int (length (palette st))
                    then palette st ! nat (bgIndex st - 1) else last (palette st))"
proof -
  let ?p = "palette st"
  have some: "?p ! k \<noteq> None" if "k < length ?p" for k
    using assms(2) nth_mem [OF that] by (cases "palette st ! k") auto
  have first: "slot_at ?p 0 = hd ?p"
    using assms(1) by (simp add: slot_at_inside hd_conv_nth)
  have "nat (int (length ?p) - 1) = length ?p - 1" by simp
  then have final: "slot_at ?p (int (length ?p) - 1) = last ?p"
    using assms(1) by (simp add: slot_at_inside last_conv_nth)
  have inside: "?p ! nat (i - 1) \<noteq> None" if "1 \<le> i" "i \<le> int (length ?p)" for i
    using that by (intro some) linarith
  have f: "fg st = (if 1 \<le> fgIndex st \<and> fgIndex st \<le> int (length ?p)
                    then ?p ! nat (fgIndex st - 1) else hd ?p)"
    using inside [of "fgIndex st"] by (auto simp: fg_select first)
  have b: "bg st = (if 1 \<le> bgIndex st \<and> bgIndex st \<le> int (length ?p)
                    then ?p ! nat (bgIndex st - 1) else last ?p)"
    using inside [of "bgIndex st"] by (auto simp: bg_select final)
  have "hd ?p \<in> set ?p" "last ?p \<in> set ?p"
    using assms(1) by simp_all
  with assms(2) have ends: "hd ?p \<noteq> None" "last ?p \<noteq> None"
    by metis+
  have "fg st \<noteq> None"
    using inside [of "fgIndex st"] ends by (simp add: f)
  moreover have "bg st \<noteq> None"
    using inside [of "bgIndex st"] ends by (simp add: b)
  ultimately have "fg st \<noteq> None" "bg st \<noteq> None" by simp_all
  then obtain x y where "fg st = Some x" "bg st = Some y" by auto
  then have "\<exists>r. contrast st = Inr r"
    using contrastRatio_strings [of x y] by (simp add: contrast_def)
  with f b show ?thesis by blast
qed

theorem contrast_selection_soft_witness:
  "palette (sample_state\<lparr>fgIndex := 7, bgIndex := 0\<rparr>) \<noteq> []
   \<and> None \<notin> set (palette (sample_state\<lparr>fgIndex := 7, bgIndex := 0\<rparr>))
   \<and> (\<exists>r. contrast (sample_state\<lparr>fgIndex := 7, bgIndex := 0\<rparr>) = Inr r)
   \<and> fg (sample_state\<lparr>fgIndex := 7, bgIndex := 0\<rparr>) = Some ''#000000''
   \<and> bg (sample_state\<lparr>fgIndex := 7, bgIndex := 0\<rparr>) = Some ''#444444''"
proof -
  let ?s = "sample_state\<lparr>fgIndex := 7, bgIndex := 0\<rparr>"
  have a: "palette ?s \<noteq> []" by (simp add: sample_state_def)
  have b: "None \<notin> set (palette ?s)" by (simp add: sample_state_def)
  from contrast_selection_soft [OF a b] a b show ?thesis
    by (simp add: sample_state_def)
qed

text \<open>
  This is a fallback, not a clamp: clamping the foreground index 7 on five colors gives
  slot 5, while the code selects slot 1.
\<close>

theorem contrast_selection_counterexample:
  "fg (sample_state\<lparr>fgIndex := 7\<rparr>) \<noteq> clamped_select (palette sample_state) 7"
  by (simp add: fg_def sample_state_def clamped_select_def clamped_index_def nullish_def
      slot_at_def elem_at_def)

lemma selection_out_of_range:
  "fg (sample_state\<lparr>fgIndex := 7\<rparr>) = Some ''#000000''
   \<and> clamped_select (palette sample_state) 7 = Some ''#444444''
   \<and> bg (sample_state\<lparr>bgIndex := 0\<rparr>) = Some ''#444444''
   \<and> clamped_select (palette sample_state) 0 = Some ''#000000''"
  by (simp add: fg_def bg_def sample_state_def clamped_select_def clamped_index_def nullish_def
      slot_at_def elem_at_def)

text \<open>On an empty palette both selections are \<open>undefined\<close> and the computation throws.\<close>

lemma contrast_empty_palette:
  "contrast (sample_state\<lparr>palette := []\<rparr>) = Inl TypeError"
  by (simp add: contrast_def contrastRatio_def fg_def bg_def nullish_def slot_at_def elem_at_def
      sample_state_def)

section \<open>Groups and digits\<close>

lemma match_groups_empty_iff: "match_groups cs = [] \<longleftrightarrow> list_all line_terminator cs"
  by (induction cs rule: match_groups.induct) auto

lemma match_groups_plain:
  "list_all (\<lambda>c. \<not> line_terminator c) cs \<Longrightarrow>
     length (match_groups cs) = (length cs + 1) div 2
     \<and> (\<forall>k < (length cs + 1) div 2. match_groups cs ! k = take 2 (drop (2 * k) cs))"
proof (induction cs rule: match_groups.induct)
  case 1
  then show ?case by simp
next
  case (2 a)
  then show ?case by simp
next
  case (3 a b cs)
  then have ih: "length (match_groups cs) = (length cs + 1) div 2"
    "\<And>k. k < (length cs + 1) div 2 \<Longrightarrow> match_groups cs ! k = take 2 (drop (2 * k) cs)"
    by simp_all
  from "3.prems" have eq: "match_groups (a # b # cs) = [a, b] # match_groups cs"
    by simp
  have "match_groups (a # b # cs) ! k = take 2 (drop (2 * k) (a # b # cs))"
    if "k < (length (a # b # cs) + 1) div 2" for k
  proof (cases k)
    case 0
    then show ?thesis by (simp add: eq del: match_groups.simps)
  next
    case (Suc j)
    with that have "j < (length cs + 1) div 2" by simp
    from ih(2) [OF this] Suc show ?thesis by (simp add: eq del: match_groups.simps)
  qed
  then show ?case using ih(1) by (simp add: eq del: match_groups.simps)
qed

lemma is_hex_not_special:
  "is_hex c \<Longrightarrow> \<not> white_space c \<and> c \<noteq> CHR ''-'' \<and> c \<noteq> CHR ''+''
     \<and> c \<noteq> CHR ''x'' \<and> c \<noteq> CHR ''X'' \<and> \<not> line_terminator c \<and> c \<noteq> CHR ''#''"
  by (auto simp: is_hex_def hex_value_def white_space_def line_terminator_def Let_def
      split: if_splits)

lemma parseInt16_not_a_number:
  assumes "g \<noteq> []" and "\<not> is_hex (hd g)" and "\<not> white_space (hd g)"
    and "hd g \<noteq> CHR ''+''" and "hd g \<noteq> CHR ''-''"
  shows "parseInt16 g = NaN"
proof -
  from assms(1) obtain c cs where g: "g = c # cs" by (cases g) auto
  with assms have c: "\<not> is_hex c" "\<not> white_space c" "c \<noteq> CHR ''+''" "c \<noteq> CHR ''-''"
    by simp_all
  have zero: "is_hex CHR ''0''" by (simp add: is_hex_def hex_value_def)
  with c(1) have "c \<noteq> CHR ''0''" by auto
  with c show ?thesis
    by (cases cs) (simp_all add: parseInt16_def g Let_def)
qed

section \<open>The round trip through RGB\<close>

lemma is_hex_cases: 
  assumes "is_hex c"
  shows "c \<in> set ''0123456789abcdefABCDEF''"
proof -
  define n where "n = (of_char c :: nat)"
  from assms have "(48 \<le> n \<and> n \<le> 57) \<or> (97 \<le> n \<and> n \<le> 102) \<or> (65 \<le> n \<and> n \<le> 70)"
    by (auto simp: is_hex_def hex_value_def Let_def n_def split: if_splits)
  then have "n \<in> {48, 49, 50, 51, 52, 53, 54, 55, 56, 57, 97, 98, 99, 100, 101, 102,
                   65, 66, 67, 68, 69, 70}"
    by simp arith
  then have "n \<in> (of_char :: char \<Rightarrow> nat) ` set ''0123456789abcdefABCDEF''"
    by simp
  then obtain d where "d \<in> set ''0123456789abcdefABCDEF''" "of_char c = (of_char d :: nat)"
    unfolding n_def by blast
  then show ?thesis by simp
qed

lemma char_of_eqI: "of_char c = (n::nat) \<Longrightarrow> char_of n = c"
  by auto

lemma char_of_a_to_f:
  "char_of (97::nat) = CHR ''a''" "char_of (98::nat) = CHR ''b''" "char_of (99::nat) = CHR ''c''"
  "char_of (100::nat) = CHR ''d''" "char_of (101::nat) = CHR ''e''" "char_of (102::nat) = CHR ''f''"
  by (rule char_of_eqI, simp)+

lemma hex_char_lower:
  "is_hex c \<Longrightarrow> hex_value c = Some d \<Longrightarrow> d < 16 \<and> hex_char d = lower_char c"
  by (drule is_hex_cases) (auto simp: hex_value_def hex_char_def lower_char_def char_of_a_to_f)

lemma hex_digits_pair:
  "p < 16 \<Longrightarrow> q < 16 \<Longrightarrow> padStart2 (hex_digits (16 * p + q)) = [hex_char p, hex_char q]"
proof (cases "p = 0")
  case True
  assume "q < 16"
  with True show ?thesis
    by (simp add: hex_digits.simps [of q] padStart2_def hex_char_def)
next
  case False
  assume "p < 16" "q < 16"
  with False have "hex_digits (16 * p + q) = hex_digits p @ [hex_char q]"
    by (subst hex_digits.simps) simp
  with \<open>p < 16\<close> show ?thesis
    by (simp add: hex_digits.simps [of p] padStart2_def)
qed

lemma parseInt16_pair:
  assumes "is_hex a" and "is_hex b" and "hex_value a = Some p" and "hex_value b = Some q"
  shows "parseInt16 [a, b] = Num (int (16 * p + q))"
proof -
  from assms(1,2) have "\<not> white_space a" "a \<noteq> CHR ''-''" "a \<noteq> CHR ''+''"
    "b \<noteq> CHR ''x''" "b \<noteq> CHR ''X''"
    using is_hex_not_special by blast+
  with assms show ?thesis
    by (simp add: parseInt16_def hex_number_def Let_def)
qed

lemma pad_parseInt16_pair:
  assumes "is_hex a" and "is_hex b"
  shows "pad (parseInt16 [a, b]) = [lower_char a, lower_char b]"
proof -
  from assms obtain p q where pq: "hex_value a = Some p" "hex_value b = Some q"
    by (auto simp: is_hex_def)
  from hex_char_lower [OF assms(1) pq(1)] hex_char_lower [OF assms(2) pq(2)]
  have b: "p < 16" "q < 16" "hex_char p = lower_char a" "hex_char q = lower_char b"
    by simp_all
  have "pad (Num (int (16 * p + q))) = padStart2 (hex_digits (16 * p + q))"
    by (simp add: pad_def toString16_def del: of_nat_add of_nat_mult)
  with b show ?thesis
    by (simp only: parseInt16_pair [OF assms pq] hex_digits_pair)
qed

text \<open>
  Claim C2. For a valid hex string \<open>x\<close>, a \<open>#\<close> followed by six hexadecimal digits,
  \<open>rgbToHex(hexToRgb(x))\<close> returns \<open>x\<close> in lower case.
\<close>

theorem hex_roundtrip:
  assumes "valid_hex x"
  shows "rgbToHex (hexToRgb x) = Inr (lower x)"
proof -
  from assms obtain ds where x: "x = CHR ''#'' # ds" and len: "length ds = 6"
    and hex: "list_all is_hex ds"
    by (auto simp: valid_hex_def split: list.splits)
  from len obtain a b c d e f where ds: "ds = [a, b, c, d, e, f]"
    by (auto simp: length_Suc_conv eval_nat_numeral)
  with hex have h: "is_hex a" "is_hex b" "is_hex c" "is_hex d" "is_hex e" "is_hex f"
    by simp_all
  then have nl: "\<not> line_terminator a" "\<not> line_terminator b" "\<not> line_terminator c"
    "\<not> line_terminator d" "\<not> line_terminator e" "\<not> line_terminator f"
    using is_hex_not_special by blast+
  have groups: "match_groups (remove1 CHR ''#'' x) = [[a, b], [c, d], [e, f]]"
    using nl by (simp add: x ds)
  then have "hexToRgb x = [parseInt16 [a, b], parseInt16 [c, d], parseInt16 [e, f]]"
    by (simp add: hexToRgb_def)
  then have "rgbToHex (hexToRgb x)
               = Inr (CHR ''#'' # pad (parseInt16 [a, b]) @ pad (parseInt16 [c, d]) @ pad (parseInt16 [e, f]))"
    by (simp add: rgbToHex_def)
  also have "\<dots> = Inr (lower x)"
    using h by (simp add: pad_parseInt16_pair lower_def x ds lower_char_def)
  finally show ?thesis .
qed

theorem hex_roundtrip_witness:
  "valid_hex ''#1a2B3C'' \<and> rgbToHex (hexToRgb ''#1a2B3C'') = Inr ''#1a2b3c''"
proof -
  have v: "valid_hex ''#1a2B3C''"
    by (simp add: valid_hex_def is_hex_def hex_value_def)
  have "lower ''#1a2B3C'' = ''#1a2b3c''"
    by (simp add: lower_def lower_char_def char_of_a_to_f)
  with hex_roundtrip [OF v] v show ?thesis by simp
qed

section \<open>Malformed hex strings\<close>

text \<open>
  Claim C3, amended. \<open>hexToRgb\<close> has no error in its result: no statement of it can
  throw on a string. It returns \<open>(0,0,0)\<close> as its fallback when nothing is left to group
  once the first \<open>#\<close> is removed (the empty string, or line terminators only). On any
  other input without line terminators it returns one number per group of two characters,
  with a last group of one character when the length is odd: the \<open>k\<close>-th number is
  \<open>parseInt\<close> of the \<open>k\<close>-th group, and it is \<open>NaN\<close> when that group starts with a
  character that is not a hexadecimal digit, white space or a sign.
\<close>

theorem hexToRgb_malformed:
  "(list_all line_terminator (remove1 CHR ''#'' hex) \<longrightarrow> hexToRgb hex = [Num 0, Num 0, Num 0])
   \<and> (remove1 CHR ''#'' hex \<noteq> [] \<and> list_all (\<lambda>c. \<not> line_terminator c) (remove1 CHR ''#'' hex) \<longrightarrow>
        length (hexToRgb hex) = (length (remove1 CHR ''#'' hex) + 1) div 2
        \<and> (\<forall>k < length (hexToRgb hex).
              hexToRgb hex ! k = parseInt16 (take 2 (drop (2 * k) (remove1 CHR ''#'' hex)))
              \<and> (\<not> is_hex (remove1 CHR ''#'' hex ! (2 * k))
                  \<and> \<not> white_space (remove1 CHR ''#'' hex ! (2 * k))
                  \<and> remove1 CHR ''#'' hex ! (2 * k) \<noteq> CHR ''+''
                  \<and> remove1 CHR ''#'' hex ! (2 * k) \<noteq> CHR ''-''
                  \<longrightarrow> hexToRgb hex ! k = NaN)))"
proof -
  let ?c = "remove1 CHR ''#'' hex"
  have fallback: "hexToRgb hex = [Num 0, Num 0, Num 0]" if "list_all line_terminator ?c"
    using that by (simp add: hexToRgb_def match_groups_empty_iff)
  have groups: "length (hexToRgb hex) = (length ?c + 1) div 2
        \<and> (\<forall>k < length (hexToRgb hex).
              hexToRgb hex ! k = parseInt16 (take 2 (drop (2 * k) ?c))
              \<and> (\<not> is_hex (?c ! (2 * k)) \<and> \<not> white_space (?c ! (2 * k))
                  \<and> ?c ! (2 * k) \<noteq> CHR ''+'' \<and> ?c ! (2 * k) \<noteq> CHR ''-''
                  \<longrightarrow> hexToRgb hex ! k = NaN))"
    if ne: "?c \<noteq> []" and plain: "list_all (\<lambda>c. \<not> line_terminator c) ?c"
  proof -
    from match_groups_plain [OF plain]
    have len: "length (match_groups ?c) = (length ?c + 1) div 2"
      and nth: "\<And>k. k < (length ?c + 1) div 2 \<Longrightarrow> match_groups ?c ! k = take 2 (drop (2 * k) ?c)"
      by simp_all
    from ne have "0 < (length ?c + 1) div 2" by (cases ?c) simp_all
    with len have "match_groups ?c \<noteq> []" by auto
    then have eq: "hexToRgb hex = map parseInt16 (match_groups ?c)"
      by (simp add: hexToRgb_def)
    have each: "hexToRgb hex ! k = parseInt16 (take 2 (drop (2 * k) ?c))"
      if "k < (length ?c + 1) div 2" for k
      using that nth [OF that] len by (simp add: eq)
    have nan: "hexToRgb hex ! k = NaN"
      if k: "k < (length ?c + 1) div 2" and bad: "\<not> is_hex (?c ! (2 * k))"
        "\<not> white_space (?c ! (2 * k))" "?c ! (2 * k) \<noteq> CHR ''+''" "?c ! (2 * k) \<noteq> CHR ''-''"
      for k
    proof -
      from k have in_range: "2 * k < length ?c" by linarith
      then have g: "take 2 (drop (2 * k) ?c) \<noteq> []" by simp
      from in_range have "hd (take 2 (drop (2 * k) ?c)) = ?c ! (2 * k)"
        by (simp add: hd_drop_conv_nth)
      with bad g have "parseInt16 (take 2 (drop (2 * k) ?c)) = NaN"
        by (intro parseInt16_not_a_number) simp_all
      with each [OF k] show ?thesis by simp
    qed
    from each nan len show ?thesis by (simp add: eq)
  qed
  from fallback groups show ?thesis by blast
qed

theorem hexToRgb_malformed_witness:
  "remove1 CHR ''#'' ''#12g45'' \<noteq> []
   \<and> list_all (\<lambda>c. \<not> line_terminator c) (remove1 CHR ''#'' ''#12g45'')
   \<and> length (hexToRgb ''#12g45'') = 3
   \<and> hexToRgb ''#12g45'' ! 1 = NaN"
proof -
  let ?c = "remove1 CHR ''#'' ''#12g45''"
  have c: "?c = ''12g45''" by simp
  have prem: "?c \<noteq> [] \<and> list_all (\<lambda>c. \<not> line_terminator c) ?c"
    by (simp add: line_terminator_def)
  with hexToRgb_malformed [of "''#12g45''"]
  have len: "length (hexToRgb ''#12g45'') = (length ?c + 1) div 2"
    and each: "\<forall>k < length (hexToRgb ''#12g45'').
       \<not> is_hex (?c ! (2 * k)) \<and> \<not> white_space (?c ! (2 * k))
         \<and> ?c ! (2 * k) \<noteq> CHR ''+'' \<and> ?c ! (2 * k) \<noteq> CHR ''-''
       \<longrightarrow> hexToRgb ''#12g45'' ! k = NaN"
    by blast+
  from len have three: "length (hexToRgb ''#12g45'') = 3" by simp
  have g: "?c ! (2 * 1) = CHR ''g''" by simp
  have bad: "\<not> is_hex (?c ! (2 * 1)) \<and> \<not> white_space (?c ! (2 * 1))
         \<and> ?c ! (2 * 1) \<noteq> CHR ''+'' \<and> ?c ! (2 * 1) \<noteq> CHR ''-''"
    unfolding g by (simp add: is_hex_def hex_value_def white_space_def)
  from three have "1 < length (hexToRgb ''#12g45'')" by simp
  with each bad have "hexToRgb ''#12g45'' ! 1 = NaN" by blast
  with three prem show ?thesis by blast
qed

text \<open>
  A string of odd length is not mapped to \<open>(0,0,0)\<close>, and neither is one with
  characters that are not hexadecimal digits.
\<close>

theorem hexToRgb_malformed_counterexample:
  "hexToRgb ''#12345'' \<noteq> [Num 0, Num 0, Num 0]"
  by (simp add: hexToRgb_def line_terminator_def parseInt16_def white_space_def is_hex_def
      hex_value_def hex_number_def)

lemma hexToRgb_odd_length: "hexToRgb ''#12345'' = [Num 18, Num 52, Num 5]"
  by (simp add: hexToRgb_def line_terminator_def parseInt16_def white_space_def is_hex_def
      hex_value_def hex_number_def)

lemma hexToRgb_not_hex: "hexToRgb ''#gggggg'' = [NaN, NaN, NaN]"
  by (simp add: hexToRgb_def line_terminator_def parseInt16_def white_space_def is_hex_def
      hex_value_def hex_number_def)

lemma hexToRgb_empty: "hexToRgb '''' = [Num 0, Num 0, Num 0] \<and> hexToRgb ''#'' = [Num 0, Num 0, Num 0]"
  by (simp add: hexToRgb_def)

lemma rgbToHex_two_groups: "rgbToHex (hexToRgb ''#1234'') = Inl TypeError"
  by (simp add: rgbToHex_def hexToRgb_def line_terminator_def parseInt16_def white_space_def
      is_hex_def hex_value_def hex_number_def)

section \<open>Range of the channels\<close>

lemma fmod_nonneg:
  assumes "0 \<le> a" and "0 < b"
  shows "0 \<le> fmod a b \<and> fmod a b < b"
proof -
  from assms have q: "0 \<le> a / b" by simp
  let ?n = "\<lfloor>a / b\<rfloor>"
  have "real_of_int ?n \<le> a / b" "a / b < real_of_int ?n + 1" by linarith+
  with assms(2) have "real_of_int ?n * b \<le> a" "a < (real_of_int ?n + 1) * b"
    by (simp_all only: pos_le_divide_eq pos_divide_less_eq)
  then have "0 \<le> a - b * real_of_int ?n" "a - b * real_of_int ?n < b"
    by (simp_all add: algebra_simps)
  with q show ?thesis by (simp add: fmod_def trunc_def)
qed

lemma fmod_lower:
  assumes "0 < b"
  shows "- b < fmod a b"
proof (cases "0 \<le> a")
  case True
  with fmod_nonneg [OF True assms] assms show ?thesis by linarith
next
  case False
  with assms have q: "\<not> 0 \<le> a / b" by (simp add: divide_less_0_iff not_le)
  let ?n = "\<lceil>a / b\<rceil>"
  have "real_of_int ?n - 1 < a / b" by linarith
  with assms have "(real_of_int ?n - 1) * b < a"
    by (simp only: pos_less_divide_eq)
  then have "- b < a - b * real_of_int ?n" by (simp add: algebra_simps)
  with q show ?thesis by (simp add: fmod_def trunc_def)
qed

lemma wrap_hue_range: "0 \<le> wrap_hue h \<and> wrap_hue h < 360"
proof -
  have "- 360 < fmod h 360" by (rule fmod_lower) simp
  then have "0 \<le> fmod h 360 + 360" by simp
  then show ?thesis unfolding wrap_hue_def by (rule fmod_nonneg) simp
qed

lemma js_round_range:
  assumes "0 \<le> v" and "v \<le> 1"
  shows "0 \<le> js_round (v * 255) \<and> js_round (v * 255) \<le> 255"
proof -
  from assms have "0 \<le> v * 255 + 1 / 2" "v * 255 + 1 / 2 < 256" by simp_all
  then have "0 \<le> \<lfloor>v * 255 + 1 / 2\<rfloor>" "\<lfloor>v * 255 + 1 / 2\<rfloor> < 256"
    by (simp_all add: floor_less_iff)
  then show ?thesis by (simp add: js_round_def)
qed

text \<open>
  Claim C8. For every hue and every saturation and lightness in \<open>[0, 1]\<close>, \<open>hslToRgb\<close>
  returns three channels and each of them, computed as \<open>round((component + m) * 255)\<close>,
  is an integer between 0 and 255.
\<close>

theorem hslToRgb_channels_in_range:
  assumes "0 \<le> s" and "s \<le> 1" and "0 \<le> l" and "l \<le> 1"
  shows "\<exists>r g b. hslToRgb h s l = [Num r, Num g, Num b]
           \<and> 0 \<le> r \<and> r \<le> 255 \<and> 0 \<le> g \<and> g \<le> 255 \<and> 0 \<le> b \<and> b \<le> 255"
proof -
  define c where "c = (1 - \<bar>2 * l - 1\<bar>) * s"
  define t where "t = fmod (wrap_hue h / 60) 2"
  define x where "x = c * (1 - \<bar>t - 1\<bar>)"
  define m where "m = l - c / 2"
  have w: "0 \<le> 1 - \<bar>2 * l - 1\<bar>" using assms by simp
  have c0: "0 \<le> c" unfolding c_def using w assms(1) by (rule mult_nonneg_nonneg)
  have "(1 - \<bar>2 * l - 1\<bar>) * s \<le> (1 - \<bar>2 * l - 1\<bar>) * 1"
    using assms(2) w by (rule mult_left_mono)
  then have c1: "c \<le> 1 - \<bar>2 * l - 1\<bar>" by (simp add: c_def)
  have "0 \<le> wrap_hue h / 60" using wrap_hue_range [of h] by simp
  then have "0 \<le> t \<and> t < 2" unfolding t_def by (rule fmod_nonneg) simp
  then have tt: "0 \<le> t" "t < 2" by simp_all
  have u: "0 \<le> 1 - \<bar>t - 1\<bar>" "1 - \<bar>t - 1\<bar> \<le> 1" using tt by linarith+
  have x0: "0 \<le> x" unfolding x_def using c0 u(1) by (rule mult_nonneg_nonneg)
  have "c * (1 - \<bar>t - 1\<bar>) \<le> c * 1" using u(2) c0 by (rule mult_left_mono)
  then have x1: "x \<le> c" by (simp add: x_def)
  have m0: "0 \<le> m" and cm: "c + m \<le> 1" using c1 by (simp_all add: m_def)
  have rc: "0 \<le> js_round ((c + m) * 255) \<and> js_round ((c + m) * 255) \<le> 255"
    using c0 m0 cm by (intro js_round_range) simp_all
  have rx: "0 \<le> js_round ((x + m) * 255) \<and> js_round ((x + m) * 255) \<le> 255"
    using x0 x1 m0 cm by (intro js_round_range) simp_all
  have r0: "0 \<le> js_round ((0 + m) * 255) \<and> js_round ((0 + m) * 255) \<le> 255"
    using c0 m0 cm by (intro js_round_range) simp_all
  have eq: "hslToRgb h s l =
     (let (r, g, b) =
            (if wrap_hue h < 60 then (c, x, 0)
             else if wrap_hue h < 120 then (x, c, 0)
             else if wrap_hue h < 180 then (0, c, x)
             else if wrap_hue h < 240 then (0, x, c)
             else if wrap_hue h < 300 then (x, 0, c)
             else (c, 0, x))
      in [Num (js_round ((r + m) * 255)),
          Num (js_round ((g + m) * 255)),
          Num (js_round ((b + m) * 255))])"
    by (simp add: hslToRgb_def Let_def c_def x_def t_def m_def)
  show ?thesis
    unfolding eq using rc rx r0 by (simp add: Let_def)
qed

theorem hslToRgb_channels_in_range_witness:
  "(0::real) \<le> 1 \<and> (1::real) \<le> 1 \<and> (0::real) \<le> 1 / 2 \<and> (1 / 2 :: real) \<le> 1
   \<and> (\<exists>r g b. hslToRgb 120 1 (1 / 2) = [Num r, Num g, Num b]
           \<and> 0 \<le> r \<and> r \<le> 255 \<and> 0 \<le> g \<and> g \<le> 255 \<and> 0 \<le> b \<and> b \<le> 255)"
  using hslToRgb_channels_in_range [of 1 "1 / 2" 120] by simp

lemma hslToRgb_green: "hslToRgb 120 1 (1 / 2) = [Num 0, Num 255, Num 0]"
  by code_simp

lemma hslToRgb_black_white:
  "hslToRgb 0 0 0 = [Num 0, Num 0, Num 0] \<and> hslToRgb 0 1 1 = [Num 255, Num 255, Num 255]"
  by code_simp

section \<open>Rounding is monotone\<close>

lemma round_even_bounds: "\<lfloor>r\<rfloor> \<le> round_even r \<and> round_even r \<le> \<lfloor>r\<rfloor> + 1"
  by (simp add: round_even_def Let_def)

lemma round_even_of_int: "round_even (of_int n) = n"
  by (simp add: round_even_def)

lemma round_even_mono:
  assumes "r \<le> s"
  shows "round_even r \<le> round_even s"
proof (cases "\<lfloor>r\<rfloor> = \<lfloor>s\<rfloor>")
  case True
  with assms have "r - of_int \<lfloor>r\<rfloor> \<le> s - of_int \<lfloor>s\<rfloor>" by simp
  with True show ?thesis by (auto simp: round_even_def Let_def)
next
  case False
  from assms have "\<lfloor>r\<rfloor> \<le> \<lfloor>s\<rfloor>" by (rule floor_mono)
  with False have "\<lfloor>r\<rfloor> + 1 \<le> \<lfloor>s\<rfloor>" by simp
  with round_even_bounds [of r] round_even_bounds [of s] show ?thesis by linarith
qed

lemma round_even_le: "r \<le> of_int n \<Longrightarrow> round_even r \<le> n"
  using round_even_mono [of r "of_int n"] by (simp add: round_even_of_int)

lemma round_even_ge: "of_int n \<le> r \<Longrightarrow> n \<le> round_even r"
  using round_even_mono [of "of_int n" r] by (simp add: round_even_of_int)

lemma fl_expo: "x \<noteq> 0 \<Longrightarrow> fl x = of_int (round_even (x / 2 powr of_int (expo x))) * 2 powr of_int (expo x)"
  by (simp add: fl_def)

lemma expo_mono: "0 < x \<Longrightarrow> x \<le> y \<Longrightarrow> expo x \<le> expo y"
proof -
  assume a: "0 < x" "x \<le> y"
  then have "log 2 x \<le> log 2 y" by simp
  then have "\<lfloor>log 2 x\<rfloor> \<le> \<lfloor>log 2 y\<rfloor>" by (rule floor_mono)
  with a show ?thesis by (simp add: expo_def)
qed

lemma below_next_binade:
  assumes "0 < x"
  shows "x < 2 powr of_int (expo x + 53)"
proof -
  have "log 2 x < of_int (\<lfloor>log 2 x\<rfloor> + 1)" by linarith
  also have "\<dots> \<le> of_int (expo x + 53)" using assms by (simp add: expo_def)
  finally have "log 2 x < of_int (expo x + 53)" .
  with assms show ?thesis by (simp add: less_powr_iff)
qed

lemma above_binade:
  assumes "0 < y" and "- 1074 < expo y"
  shows "2 powr of_int (expo y + 52) \<le> y"
proof -
  from assms(2) have "expo y + 52 = \<lfloor>log 2 y\<rfloor>"
    using assms(1) by (simp add: expo_def max_def split: if_splits)
  then have "of_int (expo y + 52) \<le> log 2 y" by linarith
  with assms(1) show ?thesis by (simp add: powr_le_iff)
qed

lemma powr_shift: "(2::real) powr of_int (e + int k) = 2 powr of_int e * 2 ^ k"
  by (simp add: powr_add powr_realpow)

lemma fl_upper:
  assumes "0 < x"
  shows "fl x \<le> 2 powr of_int (expo x + 53)"
proof -
  let ?p = "(2::real) powr of_int (expo x)"
  have p: "0 < ?p" by simp
  have s: "2 powr of_int (expo x + 53) = ?p * 2 ^ 53"
    using powr_shift [of "expo x" 53] by simp
  have "x < ?p * 2 ^ 53" using below_next_binade [OF assms] unfolding s .
  then have "x < 2 ^ 53 * ?p" by (simp only: mult.commute [of "2 ^ 53" ?p])
  with p have "x / ?p < 2 ^ 53" by (simp only: pos_divide_less_eq)
  then have "x / ?p \<le> of_int (2 ^ 53)" by simp
  then have "round_even (x / ?p) \<le> 2 ^ 53" by (rule round_even_le)
  then have "real_of_int (round_even (x / ?p)) \<le> real_of_int (2 ^ 53)"
    by (simp only: of_int_le_iff)
  then have le: "real_of_int (round_even (x / ?p)) * ?p \<le> real_of_int (2 ^ 53) * ?p"
    using p by (simp only: mult_le_cancel_right_pos)
  have eq: "fl x = real_of_int (round_even (x / ?p)) * ?p"
    using assms by (intro fl_expo) simp
  note le
  also have "real_of_int (2 ^ 53) * ?p = 2 powr of_int (expo x + 53)" unfolding s by simp
  finally show ?thesis unfolding eq .
qed

lemma fl_lower:
  assumes "0 < y" and "- 1074 < expo y"
  shows "2 powr of_int (expo y + 52) \<le> fl y"
proof -
  let ?p = "(2::real) powr of_int (expo y)"
  have p: "0 < ?p" by simp
  have s: "2 powr of_int (expo y + 52) = ?p * 2 ^ 52"
    using powr_shift [of "expo y" 52] by simp
  have "?p * 2 ^ 52 \<le> y" using above_binade [OF assms] unfolding s .
  then have "2 ^ 52 * ?p \<le> y" by (simp only: mult.commute [of "2 ^ 52" ?p])
  with p have "2 ^ 52 \<le> y / ?p" by (simp only: pos_le_divide_eq)
  then have "of_int (2 ^ 52) \<le> y / ?p" by simp
  then have "2 ^ 52 \<le> round_even (y / ?p)" by (rule round_even_ge)
  then have "real_of_int (2 ^ 52) \<le> real_of_int (round_even (y / ?p))"
    by (simp only: of_int_le_iff)
  then have le: "real_of_int (2 ^ 52) * ?p \<le> real_of_int (round_even (y / ?p)) * ?p"
    using p by (simp only: mult_le_cancel_right_pos)
  have eq: "fl y = real_of_int (round_even (y / ?p)) * ?p"
    using assms(1) by (intro fl_expo) simp
  have "2 powr of_int (expo y + 52) = real_of_int (2 ^ 52) * ?p" unfolding s by simp
  also note le
  finally show ?thesis unfolding eq .
qed

lemma fl_mono_pos:
  assumes "0 < x" and "x \<le> y"
  shows "fl x \<le> fl y"
proof (cases "expo x = expo y")
  case True
  let ?e = "expo y"
  have "x / 2 powr of_int ?e \<le> y / 2 powr of_int ?e"
    using assms(2) by (simp add: divide_right_mono)
  then have "round_even (x / 2 powr of_int ?e) \<le> round_even (y / 2 powr of_int ?e)"
    by (rule round_even_mono)
  then have "real_of_int (round_even (x / 2 powr of_int ?e)) * 2 powr of_int ?e
               \<le> real_of_int (round_even (y / 2 powr of_int ?e)) * 2 powr of_int ?e"
    by (simp add: mult_right_mono)
  with True assms show ?thesis by (simp add: fl_expo)
next
  case False
  with expo_mono [OF assms] have lt: "expo x + 1 \<le> expo y" by simp
  have "- 1074 \<le> expo x" by (simp add: expo_def)
  with lt have normal: "- 1074 < expo y" by simp
  from assms have y: "0 < y" by simp
  have "fl x \<le> 2 powr of_int (expo x + 53)" by (rule fl_upper [OF assms(1)])
  also have "\<dots> \<le> 2 powr of_int (expo y + 52)" using lt by simp
  also have "\<dots> \<le> fl y" by (rule fl_lower [OF y normal])
  finally show ?thesis .
qed

lemma fl_nonneg: "0 \<le> x \<Longrightarrow> 0 \<le> fl x"
proof (cases "x = 0")
  case True
  then show ?thesis by (simp add: fl_def)
next
  case False
  assume "0 \<le> x"
  then have "0 \<le> x / 2 powr of_int (expo x)" by simp
  then have "0 \<le> round_even (x / 2 powr of_int (expo x))"
    by (intro round_even_ge) simp
  with False show ?thesis by (simp add: fl_expo)
qed

lemma fl_mono: "0 \<le> x \<Longrightarrow> x \<le> y \<Longrightarrow> fl x \<le> fl y"
proof (cases "x = 0")
  case True
  assume "0 \<le> x" "x \<le> y"
  with True have "0 \<le> fl y" by (intro fl_nonneg) simp
  with True show ?thesis by (simp add: fl_def)
next
  case False
  assume "0 \<le> x" "x \<le> y"
  with False show ?thesis by (intro fl_mono_pos) simp_all
qed


text \<open>
  The rounding of a value whose binade is known: for \<open>2^-n \<le> x < 2^(1-n)\<close> the last
  place is \<open>2^-(n+52)\<close>.
\<close>

lemma fl_eval:
  assumes "1 / 2 ^ n \<le> x" and "x < 2 / 2 ^ n" and "n \<le> 1022"
  shows "fl x = of_int (round_even (x * 2 ^ (n + 52))) / 2 ^ (n + 52)"
proof -
  have pos: "0 < x" using assms(1) by (rule less_le_trans [rotated]) simp
  have a: "2 powr of_int (- int n) = 1 / (2::real) ^ n"
    by (simp add: powr_minus powr_realpow divide_inverse)
  have b: "2 powr of_int (- int n + 1) = 2 / (2::real) ^ n"
    by (simp add: powr_diff powr_realpow)
  have "2 powr of_int (- int n) \<le> x \<and> x < 2 powr of_int (- int n + 1)"
    unfolding a b using assms(1,2) by simp
  moreover have "(1::real) < 2" by simp
  ultimately have "\<lfloor>log 2 x\<rfloor> = - int n"
    using pos floor_log_eq_powr_iff [of x 2 "- int n"] by blast
  with assms(3) pos have e: "expo x = - int (n + 52)"
    by (simp add: expo_def)
  have c: "2 powr of_int (- int (n + 52)) = 1 / (2::real) ^ (n + 52)"
    by (simp add: powr_minus powr_realpow divide_inverse del: of_nat_add)
  from pos have "fl x = of_int (round_even (x / 2 powr of_int (expo x))) * 2 powr of_int (expo x)"
    by (intro fl_expo) simp
  then show ?thesis unfolding e c by simp
qed

lemma fl_between: "0 \<le> a \<Longrightarrow> a \<le> x \<Longrightarrow> x \<le> b \<Longrightarrow> fl a \<le> fl x \<and> fl x \<le> fl b"
  by (simp add: fl_mono)

text \<open>The decimal constants of the two draws and of the ladder, as doubles.\<close>

lemma fl_0_45: "fl 0.45 = 8106479329266893 / 2 ^ 54"
  by (subst fl_eval [of 2]) (simp_all add: round_even_def Let_def)

lemma fl_0_2: "fl 0.2 = 3602879701896397 / 2 ^ 54"
  by (subst fl_eval [of 3]) (simp_all add: round_even_def Let_def)

lemma fl_0_15: "fl 0.15 = 5404319552844595 / 2 ^ 55"
  by (subst fl_eval [of 3]) (simp_all add: round_even_def Let_def)

lemma fl_0_05: "fl 0.05 = 3602879701896397 / 2 ^ 56"
  by (subst fl_eval [of 5]) (simp_all add: round_even_def Let_def)

lemma fl_0_08: "fl 0.08 = 5764607523034235 / 2 ^ 56"
  by (subst fl_eval [of 4]) (simp_all add: round_even_def Let_def)

lemma fl_0_16: "fl 0.16 = 5764607523034235 / 2 ^ 55"
  by (subst fl_eval [of 3]) (simp_all add: round_even_def Let_def)

lemma fl_0_9: "fl 0.9 = 8106479329266893 / 2 ^ 53"
  by (subst fl_eval [of 1]) (simp_all add: round_even_def Let_def)

lemma fl_0_65: "fl 0.65 = 5854679515581645 / 2 ^ 53"
  by (subst fl_eval [of 1]) (simp_all add: round_even_def Let_def)

lemma fl_0_81: "fl 0.81 = 1823957849085051 / 2 ^ 51"
  by (subst fl_eval [of 1]) (simp_all add: round_even_def Let_def)

text \<open>The roundings at the ends of the ranges.\<close>

lemma fl_step: "fl (3602879701896397 / 2 ^ 54) = 3602879701896397 / 2 ^ 54"
  by (subst fl_eval [of 3]) (simp_all add: round_even_def Let_def)

lemma fl_lightness_lo: "fl (8106479329266893 / 2 ^ 54) = 8106479329266893 / 2 ^ 54"
  by (subst fl_eval [of 2]) (simp_all add: round_even_def Let_def)

lemma fl_lightness_hi: "fl (8106479329266893 / 2 ^ 54 + 3602879701896397 / 2 ^ 54) = 5854679515581645 / 2 ^ 53"
  by (subst fl_eval [of 1]) (simp_all add: round_even_def Let_def)

lemma fl_rung1_lo: "fl (8106479329266893 / 2 ^ 54 - 5404319552844595 / 2 ^ 55) = 1351079888211149 / 2 ^ 52"
  by (subst fl_eval [of 2]) (simp_all add: round_even_def Let_def)

lemma fl_rung1_hi: "fl (5854679515581645 / 2 ^ 53 - 5404319552844595 / 2 ^ 55) = 1 / 2"
  by (subst fl_eval [of 1]) (simp_all add: round_even_def Let_def)

lemma fl_rung2_lo: "fl (8106479329266893 / 2 ^ 54 - 3602879701896397 / 2 ^ 56) = 3602879701896397 / 2 ^ 53"
  by (subst fl_eval [of 2]) (simp_all add: round_even_def Let_def)

lemma fl_rung2_hi: "fl (5854679515581645 / 2 ^ 53 - 3602879701896397 / 2 ^ 56) = 5404319552844595 / 2 ^ 53"
  by (subst fl_eval [of 1]) (simp_all add: round_even_def Let_def)

lemma fl_rung4_lo: "fl (8106479329266893 / 2 ^ 54 + 5764607523034235 / 2 ^ 56) = 2386907802506363 / 2 ^ 52"
  by (subst fl_eval [of 1]) (simp_all add: round_even_def Let_def)

lemma fl_rung4_hi: "fl (5854679515581645 / 2 ^ 53 + 5764607523034235 / 2 ^ 56) = 1643813863990231 / 2 ^ 51"
  by (subst fl_eval [of 1]) (simp_all add: round_even_def Let_def)

lemma fl_rung5_lo: "fl (8106479329266893 / 2 ^ 54 + 5764607523034235 / 2 ^ 55) = 5494391545392005 / 2 ^ 53"
  by (subst fl_eval [of 1]) (simp_all add: round_even_def Let_def)

lemma fl_rung5_hi: "fl (5854679515581645 / 2 ^ 53 + 5764607523034235 / 2 ^ 55) = 1823957849085051 / 2 ^ 51"
  by (subst fl_eval [of 1]) (simp_all add: round_even_def Let_def)

lemma fl_last_product: "fl ((1 - 1 / 2 ^ 53) * (3602879701896397 / 2 ^ 54)) = 7205759403792793 / 2 ^ 55"
  by (subst fl_eval [of 3]) (simp_all add: round_even_def Let_def)

lemma fl_last_sum: "fl (8106479329266893 / 2 ^ 54 + 7205759403792793 / 2 ^ 55) = 5854679515581645 / 2 ^ 53"
  by (subst fl_eval [of 1]) (simp_all add: round_even_def Let_def)

section \<open>The lightness ladder\<close>

lemma lightness_range:
  assumes "0 \<le> u" and "u < 1"
  shows "8106479329266893 / 2 ^ 54 \<le> lightness u \<and> lightness u \<le> 5854679515581645 / 2 ^ 53"
proof -
  let ?a = "3602879701896397 / 2 ^ 54 :: real"
  have "0 \<le> u * ?a" "u * ?a \<le> ?a" using assms by simp_all
  then have "fl 0 \<le> fl (u * ?a) \<and> fl (u * ?a) \<le> fl ?a"
    by (intro fl_between) simp_all
  then have p: "0 \<le> fl (u * ?a)" "fl (u * ?a) \<le> ?a"
    unfolding fl_step by (simp_all add: fl_def)
  let ?s = "8106479329266893 / 2 ^ 54 + fl (u * ?a)"
  have "fl (8106479329266893 / 2 ^ 54) \<le> fl ?s
        \<and> fl ?s \<le> fl (8106479329266893 / 2 ^ 54 + 3602879701896397 / 2 ^ 54)"
    using p by (intro fl_between) simp_all
  then have "8106479329266893 / 2 ^ 54 \<le> fl ?s \<and> fl ?s \<le> 5854679515581645 / 2 ^ 53"
    unfolding fl_lightness_lo fl_lightness_hi .
  then show ?thesis
    unfolding lightness_def fl_0_45 fl_0_2 .
qed

lemma rung1_range:
  assumes "8106479329266893 / 2 ^ 54 \<le> l" and "l \<le> 5854679515581645 / 2 ^ 53"
  shows "1351079888211149 / 2 ^ 52 \<le> fl (l - fl 0.15) \<and> fl (l - fl 0.15) \<le> 1 / 2"
proof -
  have "fl (8106479329266893 / 2 ^ 54 - 5404319552844595 / 2 ^ 55) \<le> fl (l - 5404319552844595 / 2 ^ 55)
        \<and> fl (l - 5404319552844595 / 2 ^ 55) \<le> fl (5854679515581645 / 2 ^ 53 - 5404319552844595 / 2 ^ 55)"
    using assms by (intro fl_between) simp_all
  then show ?thesis unfolding fl_rung1_lo fl_rung1_hi fl_0_15 .
qed

lemma rung2_range:
  assumes "8106479329266893 / 2 ^ 54 \<le> l" and "l \<le> 5854679515581645 / 2 ^ 53"
  shows "3602879701896397 / 2 ^ 53 \<le> fl (l - fl 0.05) \<and> fl (l - fl 0.05) \<le> 5404319552844595 / 2 ^ 53"
proof -
  have "fl (8106479329266893 / 2 ^ 54 - 3602879701896397 / 2 ^ 56) \<le> fl (l - 3602879701896397 / 2 ^ 56)
        \<and> fl (l - 3602879701896397 / 2 ^ 56) \<le> fl (5854679515581645 / 2 ^ 53 - 3602879701896397 / 2 ^ 56)"
    using assms by (intro fl_between) simp_all
  then show ?thesis unfolding fl_rung2_lo fl_rung2_hi fl_0_05 .
qed

lemma rung4_range:
  assumes "8106479329266893 / 2 ^ 54 \<le> l" and "l \<le> 5854679515581645 / 2 ^ 53"
  shows "2386907802506363 / 2 ^ 52 \<le> fl (l + fl 0.08) \<and> fl (l + fl 0.08) \<le> 1643813863990231 / 2 ^ 51"
proof -
  have "fl (8106479329266893 / 2 ^ 54 + 5764607523034235 / 2 ^ 56) \<le> fl (l + 5764607523034235 / 2 ^ 56)
        \<and> fl (l + 5764607523034235 / 2 ^ 56) \<le> fl (5854679515581645 / 2 ^ 53 + 5764607523034235 / 2 ^ 56)"
    using assms by (intro fl_between) simp_all
  then show ?thesis unfolding fl_rung4_lo fl_rung4_hi fl_0_08 .
qed

lemma rung5_range:
  assumes "8106479329266893 / 2 ^ 54 \<le> l" and "l \<le> 5854679515581645 / 2 ^ 53"
  shows "5494391545392005 / 2 ^ 53 \<le> fl (l + fl 0.16) \<and> fl (l + fl 0.16) \<le> 1823957849085051 / 2 ^ 51"
proof -
  have "fl (8106479329266893 / 2 ^ 54 + 5764607523034235 / 2 ^ 55) \<le> fl (l + 5764607523034235 / 2 ^ 55)
        \<and> fl (l + 5764607523034235 / 2 ^ 55) \<le> fl (5854679515581645 / 2 ^ 53 + 5764607523034235 / 2 ^ 55)"
    using assms by (intro fl_between) simp_all
  then show ?thesis unfolding fl_rung5_lo fl_rung5_hi fl_0_16 .
qed

text \<open>
  Claim C10, amended. For a scheme other than \<open>monochrome\<close> and every draw \<open>u\<close> in
  \<open>[0, 1)\<close>, the lightness \<open>l = 0.45 + u * 0.2\<close>, computed in doubles, lies between
  the doubles \<open>0.45\<close> and \<open>0.65\<close>, both included. The clamp to \<open>[0.15, 0.9]\<close>
  leaves the ladder \<open>l-0.15, l-0.05, l, l+0.08, l+0.16\<close> unchanged, every value of the
  ladder lies between \<open>0.30\<close> and the double \<open>0.81\<close>, both included, and the later
  clamp to \<open>[0, 1]\<close> changes nothing either.
\<close>

theorem lightness_ladder_unclamped:
  assumes "sch \<noteq> ''monochrome''" and "0 \<le> u" and "u < 1"
  shows "fl 0.45 \<le> lightness u \<and> lightness u \<le> fl 0.65
         \<and> ls sch (lightness u)
             = [fl (lightness u - fl 0.15), fl (lightness u - fl 0.05), lightness u,
                fl (lightness u + fl 0.08), fl (lightness u + fl 0.16)]
         \<and> (\<forall>x \<in> set (ls sch (lightness u)). 0.30 \<le> x \<and> x \<le> fl 0.81 \<and> clamp x 0 1 = x)"
proof -
  define l where "l = lightness u"
  have lo: "8106479329266893 / 2 ^ 54 \<le> l" and hi: "l \<le> 5854679515581645 / 2 ^ 53"
    using lightness_range [OF assms(2,3)] by (simp_all add: l_def)
  note r1 = rung1_range [OF lo hi] and r2 = rung2_range [OF lo hi]
    and r4 = rung4_range [OF lo hi] and r5 = rung5_range [OF lo hi]
  have unclamped: "clamp x (fl 0.15) (fl 0.9) = x"
    if "1351079888211149 / 2 ^ 52 \<le> x" and "x \<le> 1823957849085051 / 2 ^ 51" for x
    unfolding fl_0_15 fl_0_9 using that by (simp add: clamp_def)
  have ladder: "ls sch l = [fl (l - fl 0.15), fl (l - fl 0.05), l, fl (l + fl 0.08), fl (l + fl 0.16)]"
  proof -
    have "clamp (fl (l - fl 0.15)) (fl 0.15) (fl 0.9) = fl (l - fl 0.15)"
      using r1 by (intro unclamped) simp_all
    moreover have "clamp (fl (l - fl 0.05)) (fl 0.15) (fl 0.9) = fl (l - fl 0.05)"
      using r2 by (intro unclamped) simp_all
    moreover have "clamp l (fl 0.15) (fl 0.9) = l"
      using lo hi by (intro unclamped) simp_all
    moreover have "clamp (fl (l + fl 0.08)) (fl 0.15) (fl 0.9) = fl (l + fl 0.08)"
      using r4 by (intro unclamped) simp_all
    moreover have "clamp (fl (l + fl 0.16)) (fl 0.15) (fl 0.9) = fl (l + fl 0.16)"
      using r5 by (intro unclamped) simp_all
    ultimately show ?thesis using assms(1) by (simp add: ls_def)
  qed
  have each: "0.30 \<le> x \<and> x \<le> fl 0.81 \<and> clamp x 0 1 = x"
    if "1351079888211149 / 2 ^ 52 \<le> x" and "x \<le> 1823957849085051 / 2 ^ 51" for x :: real
    unfolding fl_0_81 using that by (simp add: clamp_def)
  have "\<forall>x \<in> set (ls sch l). 0.30 \<le> x \<and> x \<le> fl 0.81 \<and> clamp x 0 1 = x"
  proof -
    have "0.30 \<le> fl (l - fl 0.15) \<and> fl (l - fl 0.15) \<le> fl 0.81
            \<and> clamp (fl (l - fl 0.15)) 0 1 = fl (l - fl 0.15)"
      using r1 by (intro each) simp_all
    moreover have "0.30 \<le> fl (l - fl 0.05) \<and> fl (l - fl 0.05) \<le> fl 0.81
            \<and> clamp (fl (l - fl 0.05)) 0 1 = fl (l - fl 0.05)"
      using r2 by (intro each) simp_all
    moreover have "0.30 \<le> l \<and> l \<le> fl 0.81 \<and> clamp l 0 1 = l"
      using lo hi by (intro each) simp_all
    moreover have "0.30 \<le> fl (l + fl 0.08) \<and> fl (l + fl 0.08) \<le> fl 0.81
            \<and> clamp (fl (l + fl 0.08)) 0 1 = fl (l + fl 0.08)"
      using r4 by (intro each) simp_all
    moreover have "0.30 \<le> fl (l + fl 0.16) \<and> fl (l + fl 0.16) \<le> fl 0.81
            \<and> clamp (fl (l + fl 0.16)) 0 1 = fl (l + fl 0.16)"
      using r5 by (intro each) simp_all
    ultimately show ?thesis unfolding ladder by simp
  qed
  moreover have "fl 0.45 \<le> l" "l \<le> fl 0.65"
    unfolding fl_0_45 fl_0_65 using lo hi by simp_all
  ultimately show ?thesis using ladder unfolding l_def by blast
qed

theorem lightness_ladder_unclamped_witness:
  "''triadic'' \<noteq> ''monochrome'' \<and> (0::real) \<le> 1 / 2 \<and> (1 / 2 :: real) < 1
   \<and> fl 0.45 \<le> lightness (1 / 2) \<and> lightness (1 / 2) \<le> fl 0.65
   \<and> length (ls ''triadic'' (lightness (1 / 2))) = 5"
proof -
  have a: "''triadic'' \<noteq> ''monochrome''" by simp
  have b: "(0::real) \<le> 1 / 2" "(1 / 2 :: real) < 1" by simp_all
  from lightness_ladder_unclamped [OF a b]
  have "fl 0.45 \<le> lightness (1 / 2)" "lightness (1 / 2) \<le> fl 0.65"
    "length (ls ''triadic'' (lightness (1 / 2))) = 5"
    by simp_all
  with a b show ?thesis by blast
qed

text \<open>
  The upper ends are reached. At the largest double below 1 the draw rounds to the
  double \<open>0.65\<close> and the last rung to the double \<open>0.81\<close>; neither is below the real
  number it is written as, so the intervals are not open at the top.
\<close>

lemma lightness_last_draw: "lightness (1 - 1 / 2 ^ 53) = 5854679515581645 / 2 ^ 53"
  unfolding lightness_def fl_0_45 fl_0_2 fl_last_product fl_last_sum ..

theorem lightness_ladder_counterexample:
  "lightness (1 - 1 / 2 ^ 53) = fl 0.65
   \<and> \<not> lightness (1 - 1 / 2 ^ 53) < 0.65
   \<and> ls ''triadic'' (lightness (1 - 1 / 2 ^ 53)) ! 4 = fl 0.81
   \<and> \<not> ls ''triadic'' (lightness (1 - 1 / 2 ^ 53)) ! 4 < 0.81"
proof -
  have top: "fl (5854679515581645 / 2 ^ 53 + fl 0.16) = 1823957849085051 / 2 ^ 51"
    unfolding fl_0_16 fl_rung5_hi ..
  have "ls ''triadic'' (5854679515581645 / 2 ^ 53) ! 4
          = clamp (fl (5854679515581645 / 2 ^ 53 + fl 0.16)) (fl 0.15) (fl 0.9)"
    by (simp add: ls_def)
  also have "\<dots> = clamp (1823957849085051 / 2 ^ 51) (fl 0.15) (fl 0.9)"
    unfolding top ..
  also have "\<dots> = 1823957849085051 / 2 ^ 51"
    unfolding fl_0_15 fl_0_9 by (simp add: clamp_def)
  finally have rung: "ls ''triadic'' (5854679515581645 / 2 ^ 53) ! 4 = 1823957849085051 / 2 ^ 51" .
  show ?thesis
    unfolding lightness_last_draw rung fl_0_65 fl_0_81 by simp
qed

end
